theory Spec2Isabelle
  imports Main
begin

section \<open>JavaScript values\<close>

text \<open>
  The configuration maps that the tool layer redacts and the bodies that the client
  inspects are results of \<^verbatim>\<open>JSON.parse\<close>. A string is its sequence of UTF-16 code
  units; a \<^typ>\<open>char\<close> stands for one code unit, so the model covers the strings whose
  code units are below 256. Numbers are only ever passed along, never inspected, so their
  representation is the type parameter \<open>'n\<close>. An object is the list of its own
  enumerable properties in the order in which \<^verbatim>\<open>Object.entries\<close> reports them.
\<close>

datatype 'n json =
    JNull
  | JBool bool
  | JNum 'n
  | JStr string
  | JArr "'n json list"
  | JObj "(string \<times> 'n json) list"

text \<open>\<^verbatim>\<open>typeof value === 'string'\<close>\<close>

fun is_string :: "'n json \<Rightarrow> bool" where
  "is_string (JStr s) = True"
| "is_string _ = False"

text \<open>\<^verbatim>\<open>typeof value === 'object' && value !== null\<close>: arrays are objects too.\<close>

fun is_object :: "'n json \<Rightarrow> bool" where
  "is_object (JArr vs) = True"
| "is_object (JObj kvs) = True"
| "is_object _ = False"

subsection \<open>Strings\<close>

text \<open>
  \<^verbatim>\<open>String.prototype.toLowerCase\<close> on code units below 256: the letters A to Z and
  the Latin-1 capitals U+00C0 to U+00DE (without the multiplication sign U+00D7) move up
  by 32, every other code unit stays.
\<close>

definition upper_letters :: string where
  "upper_letters = ''ABCDEFGHIJKLMNOPQRSTUVWXYZ'' @
     [CHR 0xC0, CHR 0xC1, CHR 0xC2, CHR 0xC3, CHR 0xC4, CHR 0xC5, CHR 0xC6, CHR 0xC7,
      CHR 0xC8, CHR 0xC9, CHR 0xCA, CHR 0xCB, CHR 0xCC, CHR 0xCD, CHR 0xCE, CHR 0xCF,
      CHR 0xD0, CHR 0xD1, CHR 0xD2, CHR 0xD3, CHR 0xD4, CHR 0xD5, CHR 0xD6,
      CHR 0xD8, CHR 0xD9, CHR 0xDA, CHR 0xDB, CHR 0xDC, CHR 0xDD, CHR 0xDE]"

definition lower_letters :: string where
  "lower_letters = ''abcdefghijklmnopqrstuvwxyz'' @
     [CHR 0xE0, CHR 0xE1, CHR 0xE2, CHR 0xE3, CHR 0xE4, CHR 0xE5, CHR 0xE6, CHR 0xE7,
      CHR 0xE8, CHR 0xE9, CHR 0xEA, CHR 0xEB, CHR 0xEC, CHR 0xED, CHR 0xEE, CHR 0xEF,
      CHR 0xF0, CHR 0xF1, CHR 0xF2, CHR 0xF3, CHR 0xF4, CHR 0xF5, CHR 0xF6,
      CHR 0xF8, CHR 0xF9, CHR 0xFA, CHR 0xFB, CHR 0xFC, CHR 0xFD, CHR 0xFE]"

definition lower_char :: "char \<Rightarrow> char" where
  "lower_char c = (case map_of (zip upper_letters lower_letters) c of Some l \<Rightarrow> l | None \<Rightarrow> c)"

definition toLowerCase :: "string \<Rightarrow> string" where
  "toLowerCase s = map lower_char s"

fun startsWith :: "string \<Rightarrow> string \<Rightarrow> bool" where
  "startsWith s [] = True"
| "startsWith [] (c # cs) = False"
| "startsWith (d # ds) (c # cs) = (d = c \<and> startsWith ds cs)"

text \<open>\<^verbatim>\<open>s.includes(t)\<close>: \<open>t\<close> occurs in \<open>s\<close> as a contiguous run.\<close>

fun str_includes :: "string \<Rightarrow> string \<Rightarrow> bool" where
  "str_includes [] t = (t = [])"
| "str_includes (c # cs) t = (startsWith (c # cs) t \<or> str_includes cs t)"

text \<open>The decimal numeral of a natural number, as a template literal prints it.\<close>

definition digit_char :: "nat \<Rightarrow> char" where
  "digit_char d = ''0123456789'' ! d"

fun nat_to_string :: "nat \<Rightarrow> string" where
  "nat_to_string n =
     (if n < 10 then [digit_char n] else nat_to_string (n div 10) @ [digit_char (n mod 10)])"

declare nat_to_string.simps [simp del]

subsection \<open>Own properties and their order\<close>

text \<open>
  A property key is an array index when it is the canonical decimal numeral of a number
  below \<open>2^32 - 1\<close>. The own keys of an object are enumerated with the array indices
  first, in ascending numeric order, then the other string keys in the order of their
  creation.
\<close>

definition digit_value :: "char \<Rightarrow> nat option" where
  "digit_value c = map_of (zip ''0123456789'' [0, 1, 2, 3, 4, 5, 6, 7, 8, 9]) c"

fun parse_digits :: "nat \<Rightarrow> string \<Rightarrow> nat option" where
  "parse_digits acc [] = Some acc"
| "parse_digits acc (c # cs) =
     (case digit_value c of None \<Rightarrow> None | Some d \<Rightarrow> parse_digits (10 * acc + d) cs)"

definition array_index :: "string \<Rightarrow> nat option" where
  "array_index key =
     (case key of
        [] \<Rightarrow> None
      | c # cs \<Rightarrow>
          if c = CHR ''0'' \<and> cs \<noteq> [] then None
          else (case parse_digits 0 key of
                  None \<Rightarrow> None
                | Some n \<Rightarrow> if n < 4294967295 then Some n else None))"

fun enum_ordered :: "string list \<Rightarrow> bool" where
  "enum_ordered [] = True"
| "enum_ordered (k # ks) =
     ((case array_index k of
         Some n \<Rightarrow> list_all (\<lambda>k'. case array_index k' of Some m \<Rightarrow> n < m | None \<Rightarrow> True) ks
       | None \<Rightarrow> list_all (\<lambda>k'. array_index k' = None) ks)
      \<and> enum_ordered ks)"

text \<open>The key lists that an object can have: no key twice, in enumeration order.\<close>

definition own_keys :: "string list \<Rightarrow> bool" where
  "own_keys ks = (distinct ks \<and> enum_ordered ks)"

text \<open>
  \<^verbatim>\<open>Object.entries(value)\<close> for an object or an array; an array of length \<open>n\<close> has
  the keys \<open>0\<close> to \<open>n - 1\<close>. The redactors reach no other kind of value: their
  parameter is typed \<^verbatim>\<open>Record<string, unknown>\<close> and the recursion is guarded by
  \<open>is_object\<close>.
\<close>

fun Object_entries :: "'n json \<Rightarrow> (string \<times> 'n json) list" where
  "Object_entries (JObj kvs) = kvs"
| "Object_entries (JArr vs) = map (\<lambda>(i, v). (nat_to_string i, v)) (enumerate 0 vs)"
| "Object_entries _ = []"

text \<open>
  A value as \<^verbatim>\<open>JSON.parse\<close> builds it: every object has a possible key list, and an
  array has fewer than \<open>2^32\<close> elements.
\<close>

fun wf_json :: "'n json \<Rightarrow> bool" where
  "wf_json (JObj kvs) = (own_keys (map fst kvs) \<and> list_all (\<lambda>kv. wf_json (snd kv)) kvs)"
| "wf_json (JArr vs) = (length vs < 4294967296 \<and> list_all wf_json vs)"
| "wf_json _ = True"

subsection \<open>Property assignment\<close>

text \<open>
  \<^verbatim>\<open>obj[key] = v\<close> on an object that was created by the literal \<^verbatim>\<open>{}\<close> and has
  only been assigned to since, as \<^verbatim>\<open>masked\<close> and \<^verbatim>\<open>headers\<close> are; \<open>obj\<close> is
  the list of its own properties. Such an object inherits the accessor \<^verbatim>\<open>__proto__\<close>
  from \<^verbatim>\<open>Object.prototype\<close>: an assignment to that key runs the setter, which
  replaces the prototype when \<open>v\<close> is an object or \<^verbatim>\<open>null\<close> and does nothing
  otherwise, and in neither case creates an own property. (A source object has the key
  at most once, so the setter is still inherited when the key comes up.) Any other key
  is an own data property afterwards: an existing one keeps its place, a new array index
  goes to its numeric place among the array indices, and any other new key goes to the
  end.
\<close>

fun replace_value :: "string \<Rightarrow> 'v \<Rightarrow> (string \<times> 'v) list \<Rightarrow> (string \<times> 'v) list" where
  "replace_value key v [] = []"
| "replace_value key v (e # es) =
     (if fst e = key then (key, v) # es else e # replace_value key v es)"

fun insert_index :: "nat \<Rightarrow> string \<times> 'v \<Rightarrow> (string \<times> 'v) list \<Rightarrow> (string \<times> 'v) list" where
  "insert_index n kv [] = [kv]"
| "insert_index n kv (e # es) =
     (case array_index (fst e) of
        Some m \<Rightarrow> if m < n then e # insert_index n kv es else kv # e # es
      | None \<Rightarrow> kv # e # es)"

definition js_set :: "(string \<times> 'v) list \<Rightarrow> string \<Rightarrow> 'v \<Rightarrow> (string \<times> 'v) list" where
  "js_set obj key v =
     (if key = ''__proto__'' then obj
      else if map_of obj key \<noteq> None then replace_value key v obj
      else (case array_index key of
              Some n \<Rightarrow> insert_index n (key, v) obj
            | None \<Rightarrow> obj @ [(key, v)]))"

section \<open>The redactors\<close>

text \<open>\<^verbatim>\<open>SENSITIVE_KEYS\<close> of the storage tools.\<close>

definition SENSITIVE_KEYS :: "string list" where
  "SENSITIVE_KEYS =
     [''password'', ''secret'', ''key'', ''token'', ''credential'', ''apiKey'', ''api_key'',
      ''accessKey'', ''access_key'', ''secretKey'', ''secret_key'']"

text \<open>\<^verbatim>\<open>sensitiveKeys\<close> of the notifier tools.\<close>

definition sensitiveKeys :: "string list" where
  "sensitiveKeys =
     [''url'', ''webhook_url'', ''webhookUrl'', ''token'', ''api_key'', ''apiKey'', ''password'',
      ''secret'', ''bot_token'', ''botToken'', ''access_token'', ''accessToken'']"

text \<open>
  \<^verbatim>\<open>maskSensitiveConfig\<close> of the storage tools. The loop over the entries is a
  \<open>fold\<close> whose accumulator is the object \<open>masked\<close>; the result is its entry list.
\<close>

function maskSensitiveConfig_storages :: "'n json \<Rightarrow> (string \<times> 'n json) list" where
  "maskSensitiveConfig_storages config =
     fold (\<lambda>(key, v) masked.
             let lowerKey = toLowerCase key;
                 isSensitive = list_ex (\<lambda>sensitive. str_includes lowerKey sensitive) SENSITIVE_KEYS
             in if isSensitive \<and> is_string v then js_set masked key (JStr ''***'')
                else if is_object v then js_set masked key (JObj (maskSensitiveConfig_storages v))
                else js_set masked key v)
          (Object_entries config) []"
  by pat_completeness auto
termination
proof (relation "measure size")
  fix config :: "'n json" and x :: "string \<times> 'n json" and key v
  assume mem: "x \<in> set (Object_entries config)" and x: "(key, v) = x"
  have "size v < size config"
  proof (cases config)
    case (JObj kvs)
    have "(key, v) \<in> set kvs \<Longrightarrow> size v < Suc (size_list (size_prod (\<lambda>_. 0) size) kvs)"
      by (induction kvs) auto
    with JObj mem x show ?thesis
      by simp
  next
    case (JArr vs)
    have "v \<in> set vs \<Longrightarrow> size v < Suc (size_list size vs)"
      by (induction vs) auto
    with JArr mem x show ?thesis
      by (auto simp: in_set_enumerate_eq)
  qed (use mem in auto)
  then show "(v, config) \<in> measure size"
    by simp
qed simp

declare maskSensitiveConfig_storages.simps [simp del]

text \<open>\<^verbatim>\<open>maskSensitiveConfig\<close> of the notifier tools.\<close>

definition maskSensitiveConfig_notifiers :: "'n json \<Rightarrow> (string \<times> 'n json) list" where
  "maskSensitiveConfig_notifiers config =
     fold (\<lambda>(key, v) masked.
             let lowerKey = toLowerCase key;
                 isSensitive = list_ex (\<lambda>sk. str_includes lowerKey sk) sensitiveKeys
             in if isSensitive \<and> is_string v then js_set masked key (JStr ''***REDACTED***'')
                else js_set masked key v)
          (Object_entries config) []"

section \<open>The API client\<close>

record DatabasusConfig =
  baseUrl :: string
  apiKey :: "string option"
  bearerToken :: "string option"

text \<open>The private fields of \<^verbatim>\<open>DatabasusClient\<close>.\<close>

record DatabasusClient =
  this_baseUrl :: string
  this_apiKey :: "string option"
  this_bearerToken :: "string option"

text \<open>
  \<^verbatim>\<open>s.replace(/\/$/, '')\<close>: the pattern matches a slash that is the last code unit of
  the input, and the first match is replaced.
\<close>

definition replace_trailing_slash :: "string \<Rightarrow> string" where
  "replace_trailing_slash s = (if s \<noteq> [] \<and> last s = CHR ''/'' then butlast s else s)"

definition constructor :: "DatabasusConfig \<Rightarrow> DatabasusClient" where
  "constructor config =
     \<lparr>this_baseUrl = replace_trailing_slash (baseUrl config),
      this_apiKey = apiKey config,
      this_bearerToken = bearerToken config\<rparr>"

text \<open>
  The condition \<^verbatim>\<open>if (this.bearerToken)\<close> on an optional string: \<^verbatim>\<open>undefined\<close> and
  the empty string are falsy.
\<close>

fun truthy :: "string option \<Rightarrow> bool" where
  "truthy None = False"
| "truthy (Some s) = (s \<noteq> [])"

definition getHeaders :: "DatabasusClient \<Rightarrow> (string \<times> string) list" where
  "getHeaders this =
     (let headers = [(''Content-Type'', ''application/json'')]
      in if truthy (this_bearerToken this)
         then js_set headers ''Authorization'' (''Bearer '' @ the (this_bearerToken this))
         else if truthy (this_apiKey this)
         then js_set headers ''X-API-Key'' (the (this_apiKey this))
         else headers)"

text \<open>
  \<^verbatim>\<open>s.substring(start, stop)\<close> for non-negative integer arguments: the two are swapped
  when \<open>start\<close> is the larger, and both are clamped to the length.
\<close>

definition substring :: "string \<Rightarrow> nat \<Rightarrow> nat \<Rightarrow> string" where
  "substring s start stop = take (max start stop - min start stop) (drop (min start stop) s)"

text \<open>
  The property reads \<^verbatim>\<open>obj.error\<close> and \<^verbatim>\<open>obj.message\<close> on a parsed body: an own
  property of an object; an array has neither, and nothing on the prototype chain of
  either has these names.
\<close>

fun get_property :: "'n json \<Rightarrow> string \<Rightarrow> 'n json option" where
  "get_property (JObj kvs) name = map_of kvs name"
| "get_property _ name = None"

text \<open>The parameter \<open>data\<close> is \<open>None\<close> when it is \<^verbatim>\<open>undefined\<close>.\<close>

definition extractErrorMessage :: "'n json option \<Rightarrow> nat \<Rightarrow> string" where
  "extractErrorMessage data status =
     (case data of
        None \<Rightarrow> ''HTTP error '' @ nat_to_string status
      | Some obj \<Rightarrow>
          if is_object obj then
            (case get_property obj ''error'' of
               Some (JStr s) \<Rightarrow> s
             | _ \<Rightarrow>
                 (case get_property obj ''message'' of
                    Some (JStr s) \<Rightarrow> s
                  | _ \<Rightarrow> ''HTTP error '' @ nat_to_string status))
          else ''HTTP error '' @ nat_to_string status)"

subsection \<open>One request\<close>

text \<open>
  What a promise can reject with: an \<^verbatim>\<open>Error\<close> with its message, or any other value.
\<close>

datatype rejection = ErrorValue string | OtherValue

text \<open>The promise \<^verbatim>\<open>response.text()\<close>.\<close>

datatype text_result = TextRejects rejection | Text string

record Response =
  status :: nat
  response_text :: text_result

text \<open>The promise \<^verbatim>\<open>fetch(url, options)\<close>.\<close>

datatype fetch_result = Rejects rejection | Resolves Response

record RequestInit =
  http_method :: string
  headers :: "(string \<times> string) list"
  body :: "string option"

text \<open>
  The platform functions that \<^verbatim>\<open>request\<close> calls. \<^verbatim>\<open>JSON.parse\<close> returns \<open>None\<close>
  where it throws.
\<close>

record 'n platform =
  fetch :: "string \<Rightarrow> RequestInit \<Rightarrow> fetch_result"
  JSON_parse :: "string \<Rightarrow> 'n json option"
  JSON_stringify :: "'n json \<Rightarrow> string"

text \<open>\<^verbatim>\<open>response.ok\<close>\<close>

definition ok :: "Response \<Rightarrow> bool" where
  "ok response = (200 \<le> status response \<and> status response \<le> 299)"

text \<open>
  The three \<^verbatim>\<open>throw new Error(...)\<close> statements of \<^verbatim>\<open>request\<close>, told apart by
  the names the specification gives them, and a rejection of \<^verbatim>\<open>response.text()\<close>,
  which is awaited outside every \<^verbatim>\<open>try\<close> and passes through as it is.
\<close>

datatype thrown =
    NetworkError string
  | ResponseFormatError string
  | ApiError string
  | Propagated rejection

datatype 'n outcome = Throws thrown | Returns "'n json option"

text \<open>
  \<^verbatim>\<open>request\<close>. Every caller passes an object or nothing as \<open>body\<close>, and an object
  is truthy. The second component of the result is the client after the call.
\<close>

definition request ::
  "'n platform \<Rightarrow> DatabasusClient \<Rightarrow> string \<Rightarrow> string \<Rightarrow> (string \<times> 'n json) list option \<Rightarrow>
     'n outcome \<times> DatabasusClient" where
  "request env this method' path body' =
     (let url = this_baseUrl this @ path;
          options = \<lparr>http_method = method', headers = getHeaders this,
                     body = map_option (\<lambda>b. JSON_stringify env (JObj b)) body'\<rparr>
      in case fetch env url options of
           Rejects error \<Rightarrow>
             (Throws (NetworkError (''Network error: '' @
                (case error of ErrorValue message \<Rightarrow> message | OtherValue \<Rightarrow> ''Unknown error''))),
              this)
         | Resolves response \<Rightarrow>
             (case response_text response of
                TextRejects error \<Rightarrow> (Throws (Propagated error), this)
              | Text responseText \<Rightarrow>
                  (case (if responseText \<noteq> []
                         then (case JSON_parse env responseText of
                                 None \<Rightarrow> Inl (ResponseFormatError
                                   (''Invalid JSON response: '' @ substring responseText 0 100))
                               | Some parsed \<Rightarrow> Inr (Some parsed))
                         else Inr None) of
                     Inl e \<Rightarrow> (Throws e, this)
                   | Inr data \<Rightarrow>
                       if \<not> ok response
                       then (Throws (ApiError (extractErrorMessage data (status response))), this)
                       else (Returns data, this))))"

subsection \<open>What the loop body decides\<close>

text \<open>
  The value of the local \<^verbatim>\<open>isSensitive\<close> for a key, and the value that one pass of
  the loop stores under the key, for each of the two redactors.
\<close>

definition isSensitive_storages :: "string \<Rightarrow> bool" where
  "isSensitive_storages key =
     list_ex (\<lambda>sensitive. str_includes (toLowerCase key) sensitive) SENSITIVE_KEYS"

definition isSensitive_notifiers :: "string \<Rightarrow> bool" where
  "isSensitive_notifiers key =
     list_ex (\<lambda>sk. str_includes (toLowerCase key) sk) sensitiveKeys"

definition storages_value :: "string \<Rightarrow> 'n json \<Rightarrow> 'n json" where
  "storages_value key v =
     (if isSensitive_storages key \<and> is_string v then JStr ''***''
      else if is_object v then JObj (maskSensitiveConfig_storages v)
      else v)"

definition notifiers_value :: "string \<Rightarrow> 'n json \<Rightarrow> 'n json" where
  "notifiers_value key v =
     (if isSensitive_notifiers key \<and> is_string v then JStr ''***REDACTED***'' else v)"

text \<open>
  The value reached from \<open>v\<close> by reading the own properties \<open>keys\<close> one after the
  other, \<^verbatim>\<open>v[k1][k2]...\<close>; an array is read at its indices.
\<close>

fun get_path :: "'n json \<Rightarrow> string list \<Rightarrow> 'n json option" where
  "get_path v [] = Some v"
| "get_path v (key # keys) =
     (case map_of (Object_entries v) key of None \<Rightarrow> None | Some v' \<Rightarrow> get_path v' keys)"

text \<open>
  The call \<^verbatim>\<open>fetch(url, options)\<close> that \<^verbatim>\<open>request\<close> makes, with the URL and the
  options it builds.
\<close>

abbreviation fetched ::
  "'n platform \<Rightarrow> DatabasusClient \<Rightarrow> string \<Rightarrow> string \<Rightarrow> (string \<times> 'n json) list option \<Rightarrow> fetch_result" where
  "fetched env this method' path body' \<equiv>
     fetch env (this_baseUrl this @ path)
       \<lparr>http_method = method', headers = getHeaders this,
        body = map_option (\<lambda>b. JSON_stringify env (JObj b)) body'\<rparr>"

section \<open>Decimal numerals and array indices\<close>

lemma digit_value_digit_char: "d < 10 \<Longrightarrow> digit_value (digit_char d) = Some d"
proof -
  assume "d < 10"
  then have "d \<in> {0, 1, 2, 3, 4, 5, 6, 7, 8, 9}"
    by auto
  then show ?thesis
    by (auto simp: digit_value_def digit_char_def)
qed

lemma parse_digits_append:
  "parse_digits acc (xs @ ys) = (case parse_digits acc xs of None \<Rightarrow> None | Some a \<Rightarrow> parse_digits a ys)"
  by (induction xs arbitrary: acc) (auto split: option.splits)

lemma parse_digits_nat_to_string: "parse_digits 0 (nat_to_string n) = Some n"
proof (induction n rule: nat_to_string.induct)
  case (1 n)
  show ?case
  proof (cases "n < 10")
    case True
    then show ?thesis
      by (simp add: nat_to_string.simps [of n] digit_value_digit_char)
  next
    case False
    with 1 show ?thesis
      by (simp add: nat_to_string.simps [of n] parse_digits_append digit_value_digit_char)
  qed
qed

lemma nat_to_string_nonempty: "nat_to_string n \<noteq> []"
  by (simp add: nat_to_string.simps [of n])

lemma digit_char_zero: "d < 10 \<Longrightarrow> digit_char d = CHR ''0'' \<Longrightarrow> d = 0"
proof -
  assume "d < 10"
  then have "d \<in> {0, 1, 2, 3, 4, 5, 6, 7, 8, 9}"
    by auto
  moreover assume "digit_char d = CHR ''0''"
  ultimately show ?thesis
    by (auto simp: digit_char_def)
qed

lemma hd_nat_to_string: "0 < n \<Longrightarrow> hd (nat_to_string n) \<noteq> CHR ''0''"
proof (induction n rule: nat_to_string.induct)
  case (1 n)
  show ?case
  proof (cases "n < 10")
    case True
    with 1(2) show ?thesis
      using digit_char_zero [of n] by (auto simp: nat_to_string.simps [of n])
  next
    case False
    then have "0 < n div 10"
      by simp
    with 1(1) False have "hd (nat_to_string (n div 10)) \<noteq> CHR ''0''"
      by simp
    with False show ?thesis
      by (simp add: nat_to_string.simps [of n] nat_to_string_nonempty)
  qed
qed

lemma nat_to_string_zero: "nat_to_string 0 = ''0''"
  by (simp add: nat_to_string.simps [of 0] digit_char_def)

lemma array_index_nat_to_string:
  "n < 4294967295 \<Longrightarrow> array_index (nat_to_string n) = Some n"
proof (cases "n = 0")
  case True
  then show ?thesis
    by (simp add: array_index_def nat_to_string_zero digit_value_def)
next
  case False
  assume "n < 4294967295"
  moreover obtain c cs where cs: "nat_to_string n = c # cs"
    using nat_to_string_nonempty [of n] by (cases "nat_to_string n") auto
  moreover have "c \<noteq> CHR ''0''"
    using hd_nat_to_string [of n] False cs by simp
  moreover have "parse_digits 0 (c # cs) = Some n"
    using parse_digits_nat_to_string [of n] cs by simp
  ultimately show ?thesis
    by (simp add: array_index_def del: parse_digits.simps)
qed

lemma enum_ordered_snoc:
  "enum_ordered (ks @ [k]) =
     (enum_ordered ks \<and>
      (case array_index k of
         Some n \<Rightarrow> list_all (\<lambda>k'. case array_index k' of Some m \<Rightarrow> m < n | None \<Rightarrow> False) ks
       | None \<Rightarrow> True))"
  by (induction ks) (auto split: option.splits simp: list_all_iff)

lemma insert_index_end:
  "list_all (\<lambda>k'. case array_index k' of Some m \<Rightarrow> m < n | None \<Rightarrow> False) (map fst obj) \<Longrightarrow>
   insert_index n kv obj = obj @ [kv]"
  by (induction obj) (auto split: option.splits)

lemma js_set_new_key:
  assumes "own_keys (map fst obj @ [key])" and "key \<noteq> ''__proto__''"
  shows "js_set obj key v = obj @ [(key, v)]"
proof -
  from assms(1) have "key \<notin> fst ` set obj"
    by (auto simp: own_keys_def)
  then have absent: "map_of obj key = None"
    by (simp add: map_of_eq_None_iff)
  show ?thesis
  proof (cases "array_index key")
    case None
    with absent assms(2) show ?thesis
      by (simp add: js_set_def)
  next
    case (Some n)
    with assms(1) have "list_all (\<lambda>k'. case array_index k' of Some m \<Rightarrow> m < n | None \<Rightarrow> False) (map fst obj)"
      by (simp add: own_keys_def enum_ordered_snoc)
    then have "insert_index n (key, v) obj = obj @ [(key, v)]"
      by (rule insert_index_end)
    with absent assms(2) Some show ?thesis
      by (simp add: js_set_def)
  qed
qed

lemma enum_ordered_filter: "enum_ordered ks \<Longrightarrow> enum_ordered (filter P ks)"
  by (induction ks) (auto split: option.splits simp: list_all_iff)

lemma own_keys_filter: "own_keys ks \<Longrightarrow> own_keys (filter P ks)"
  by (simp add: own_keys_def enum_ordered_filter)

lemma own_keys_butlast: "own_keys (ks @ [k]) \<Longrightarrow> own_keys ks"
  by (simp add: own_keys_def enum_ordered_snoc)

text \<open>The loop of either redactor, for any choice of the stored value.\<close>

lemma fold_js_set:
  "own_keys (map fst es) \<Longrightarrow>
   fold (\<lambda>(key, v) masked. js_set masked key (g key v)) es [] =
     map (\<lambda>(key, v). (key, g key v)) (filter (\<lambda>kv. fst kv \<noteq> ''__proto__'') es)"
proof (induction es rule: rev_induct)
  case Nil
  show ?case by simp
next
  case (snoc e es)
  obtain key v where e: "e = (key, v)"
    by (cases e)
  let ?kept = "filter (\<lambda>kv. fst kv \<noteq> ''__proto__'') es"
  let ?obj = "map (\<lambda>(key, v). (key, g key v)) ?kept"
  from snoc.prems have keys: "own_keys (map fst es @ [key])"
    by (simp add: e)
  then have "own_keys (map fst es)"
    by (rule own_keys_butlast)
  with snoc.IH have IH: "fold (\<lambda>(key, v) masked. js_set masked key (g key v)) es [] = ?obj"
    by simp
  show ?case
  proof (cases "key = ''__proto__''")
    case True
    with IH show ?thesis
      by (simp add: e js_set_def)
  next
    case False
    have "map fst ?obj @ [key] = filter (\<lambda>k. k \<noteq> ''__proto__'') (map fst es @ [key])"
      using False by (simp add: filter_map comp_def case_prod_beta)
    with keys have "own_keys (map fst ?obj @ [key])"
      by (simp add: own_keys_filter del: filter_append)
    then have "js_set ?obj key (g key v) = ?obj @ [(key, g key v)]"
      using False by (rule js_set_new_key)
    with IH False show ?thesis
      by (simp add: e)
  qed
qed

lemma map_fst_Object_entries_JArr:
  "map fst (Object_entries (JArr vs)) = map nat_to_string [0..<length vs]"
proof -
  have "map fst (Object_entries (JArr vs)) = map (nat_to_string \<circ> fst) (enumerate 0 vs)"
    by (simp add: comp_def case_prod_beta)
  also have "\<dots> = map nat_to_string (map fst (enumerate 0 vs))"
    by (simp only: map_map)
  also have "\<dots> = map nat_to_string [0..<length vs]"
    by simp
  finally show ?thesis .
qed

lemma enum_ordered_indices:
  "j \<le> 4294967295 \<Longrightarrow> enum_ordered (map nat_to_string [0..<j])"
proof (induction j)
  case 0
  show ?case by simp
next
  case (Suc j)
  then have "enum_ordered (map nat_to_string [0..<j])" and j: "j < 4294967295"
    by simp_all
  moreover have "list_all (\<lambda>k'. case array_index k' of Some m \<Rightarrow> m < j | None \<Rightarrow> False)
      (map nat_to_string [0..<j])"
    using j by (simp add: list_all_iff array_index_nat_to_string)
  ultimately show ?case
    by (simp add: enum_ordered_snoc array_index_nat_to_string)
qed

lemma inj_nat_to_string: "inj nat_to_string"
proof (rule injI)
  fix a b :: nat
  assume "nat_to_string a = nat_to_string b"
  then have "parse_digits 0 (nat_to_string a) = parse_digits 0 (nat_to_string b)"
    by simp
  then show "a = b"
    by (simp add: parse_digits_nat_to_string)
qed

lemma distinct_indices: "distinct (map nat_to_string [0..<j])"
  using inj_nat_to_string by (simp add: distinct_map inj_on_def)

lemma own_keys_Object_entries:
  "wf_json config \<Longrightarrow> own_keys (map fst (Object_entries config))"
proof (cases config)
  case (JArr vs)
  assume "wf_json config"
  with JArr have "length vs \<le> 4294967295"
    by simp
  then show ?thesis
    unfolding JArr map_fst_Object_entries_JArr own_keys_def
    by (simp add: enum_ordered_indices distinct_indices)
qed (simp_all add: own_keys_def)

lemma wf_json_Object_entries:
  "wf_json config \<Longrightarrow> (key, v) \<in> set (Object_entries config) \<Longrightarrow> wf_json v"
  by (cases config) (auto simp: list_all_iff in_set_enumerate_eq)

section \<open>The redactors as maps over the entries\<close>

text \<open>
  On an object, either redactor keeps the entries in their order, drops an entry whose key
  is \<^verbatim>\<open>__proto__\<close>, and replaces the value of every other entry by the value the loop
  body decides.
\<close>

lemma storages_fold:
  "maskSensitiveConfig_storages config =
     fold (\<lambda>(key, v) masked. js_set masked key (storages_value key v)) (Object_entries config) []"
  by (subst maskSensitiveConfig_storages.simps, rule fold_cong)
    (auto simp: fun_eq_iff storages_value_def isSensitive_storages_def)

lemma notifiers_fold:
  "maskSensitiveConfig_notifiers config =
     fold (\<lambda>(key, v) masked. js_set masked key (notifiers_value key v)) (Object_entries config) []"
  unfolding maskSensitiveConfig_notifiers_def
  by (rule fold_cong) (auto simp: fun_eq_iff notifiers_value_def isSensitive_notifiers_def)

lemma storages_entries:
  "own_keys (map fst (Object_entries config)) \<Longrightarrow>
   maskSensitiveConfig_storages config =
     map (\<lambda>(key, v). (key, storages_value key v))
       (filter (\<lambda>kv. fst kv \<noteq> ''__proto__'') (Object_entries config))"
  by (simp add: storages_fold fold_js_set)

lemma notifiers_entries:
  "own_keys (map fst (Object_entries config)) \<Longrightarrow>
   maskSensitiveConfig_notifiers config =
     map (\<lambda>(key, v). (key, notifiers_value key v))
       (filter (\<lambda>kv. fst kv \<noteq> ''__proto__'') (Object_entries config))"
  by (simp add: notifiers_fold fold_js_set)

lemmas lower_defs = toLowerCase_def lower_char_def upper_letters_def lower_letters_def

lemma proto_not_sensitive:
  "\<not> isSensitive_storages ''__proto__''" "\<not> isSensitive_notifiers ''__proto__''"
  by (simp_all add: isSensitive_storages_def isSensitive_notifiers_def SENSITIVE_KEYS_def
      sensitiveKeys_def lower_defs)

lemmas key_defs = own_keys_def array_index_def digit_value_def

lemma storages_value_idem:
  assumes "is_object v \<Longrightarrow> \<not> (isSensitive_storages key \<and> is_string v) \<Longrightarrow>
      maskSensitiveConfig_storages (JObj (maskSensitiveConfig_storages v)) = maskSensitiveConfig_storages v"
  shows "storages_value key (storages_value key v) = storages_value key v"
proof (cases "isSensitive_storages key \<and> is_string v")
  case True
  then show ?thesis
    by (simp add: storages_value_def)
next
  case False
  show ?thesis
  proof (cases "is_object v")
    case True
    with False assms show ?thesis
      by (simp add: storages_value_def)
  next
    case no_object: False
    with False show ?thesis
      by (auto simp: storages_value_def)
  qed
qed

lemma notifiers_value_idem: "notifiers_value key (notifiers_value key v) = notifiers_value key v"
  by (simp add: notifiers_value_def)

lemma map_fst_storages:
  "own_keys (map fst (Object_entries config)) \<Longrightarrow>
   map fst (maskSensitiveConfig_storages config) =
     filter (\<lambda>key. key \<noteq> ''__proto__'') (map fst (Object_entries config))"
  by (simp add: storages_entries filter_map comp_def case_prod_beta)

lemma map_fst_notifiers:
  "own_keys (map fst (Object_entries config)) \<Longrightarrow>
   map fst (maskSensitiveConfig_notifiers config) =
     filter (\<lambda>key. key \<noteq> ''__proto__'') (map fst (Object_entries config))"
  by (simp add: notifiers_entries filter_map comp_def case_prod_beta)

lemma storages_again:
  assumes keys: "own_keys (map fst (Object_entries config))"
  shows "maskSensitiveConfig_storages (JObj (maskSensitiveConfig_storages config)) =
     map (\<lambda>(key, v). (key, storages_value key (storages_value key v)))
       (filter (\<lambda>kv. fst kv \<noteq> ''__proto__'') (Object_entries config))"
proof -
  let ?once = "maskSensitiveConfig_storages config"
  have "own_keys (map fst (Object_entries (JObj ?once)))"
    using keys by (simp add: map_fst_storages own_keys_filter)
  then have "maskSensitiveConfig_storages (JObj ?once) =
      map (\<lambda>(key, v). (key, storages_value key v))
        (filter (\<lambda>kv. fst kv \<noteq> ''__proto__'') (Object_entries (JObj ?once)))"
    by (rule storages_entries)
  also have "\<dots> = map (\<lambda>(key, v). (key, storages_value key (storages_value key v)))
       (filter (\<lambda>kv. fst kv \<noteq> ''__proto__'') (Object_entries config))"
    by (simp add: storages_entries [OF keys] filter_map comp_def case_prod_beta)
  finally show ?thesis .
qed

lemma notifiers_again:
  assumes keys: "own_keys (map fst (Object_entries config))"
  shows "maskSensitiveConfig_notifiers (JObj (maskSensitiveConfig_notifiers config)) =
     map (\<lambda>(key, v). (key, notifiers_value key (notifiers_value key v)))
       (filter (\<lambda>kv. fst kv \<noteq> ''__proto__'') (Object_entries config))"
proof -
  let ?once = "maskSensitiveConfig_notifiers config"
  have "own_keys (map fst (Object_entries (JObj ?once)))"
    using keys by (simp add: map_fst_notifiers own_keys_filter)
  then have "maskSensitiveConfig_notifiers (JObj ?once) =
      map (\<lambda>(key, v). (key, notifiers_value key v))
        (filter (\<lambda>kv. fst kv \<noteq> ''__proto__'') (Object_entries (JObj ?once)))"
    by (rule notifiers_entries)
  also have "\<dots> = map (\<lambda>(key, v). (key, notifiers_value key (notifiers_value key v)))
       (filter (\<lambda>kv. fst kv \<noteq> ''__proto__'') (Object_entries config))"
    by (simp add: notifiers_entries [OF keys] filter_map comp_def case_prod_beta)
  finally show ?thesis .
qed

lemma storages_idem:
  "wf_json config \<Longrightarrow>
   maskSensitiveConfig_storages (JObj (maskSensitiveConfig_storages config)) =
     maskSensitiveConfig_storages config"
proof (induction config rule: maskSensitiveConfig_storages.induct)
  case (1 config)
  have keys: "own_keys (map fst (Object_entries config))"
    using "1.prems" by (rule own_keys_Object_entries)
  have "storages_value key (storages_value key v) = storages_value key v"
    if mem: "(key, v) \<in> set (Object_entries config)" for key v
  proof (rule storages_value_idem)
    assume obj: "is_object v" and "\<not> (isSensitive_storages key \<and> is_string v)"
    then have "\<not> (list_ex (str_includes (toLowerCase key)) SENSITIVE_KEYS \<and> is_string v)"
      by (simp add: isSensitive_storages_def)
    moreover have "wf_json v"
      using "1.prems" mem by (rule wf_json_Object_entries)
    ultimately show "maskSensitiveConfig_storages (JObj (maskSensitiveConfig_storages v)) =
        maskSensitiveConfig_storages v"
      using "1.IH" [OF mem refl refl refl _ obj] by simp
  qed
  then have same: "map (\<lambda>(key, v). (key, storages_value key (storages_value key v)))
        (filter (\<lambda>kv. fst kv \<noteq> ''__proto__'') (Object_entries config)) =
      map (\<lambda>(key, v). (key, storages_value key v))
        (filter (\<lambda>kv. fst kv \<noteq> ''__proto__'') (Object_entries config))"
    by (intro map_cong refl) auto
  have "maskSensitiveConfig_storages (JObj (maskSensitiveConfig_storages config)) =
      map (\<lambda>(key, v). (key, storages_value key (storages_value key v)))
        (filter (\<lambda>kv. fst kv \<noteq> ''__proto__'') (Object_entries config))"
    using keys by (rule storages_again)
  also note same
  also have "map (\<lambda>(key, v). (key, storages_value key v))
        (filter (\<lambda>kv. fst kv \<noteq> ''__proto__'') (Object_entries config)) =
      maskSensitiveConfig_storages config"
    using keys by (rule storages_entries [symmetric])
  finally show ?case .
qed

lemma notifiers_idem:
  assumes keys: "own_keys (map fst (Object_entries config))"
  shows "maskSensitiveConfig_notifiers (JObj (maskSensitiveConfig_notifiers config)) =
     maskSensitiveConfig_notifiers config"
proof -
  have "maskSensitiveConfig_notifiers (JObj (maskSensitiveConfig_notifiers config)) =
      map (\<lambda>(key, v). (key, notifiers_value key (notifiers_value key v)))
        (filter (\<lambda>kv. fst kv \<noteq> ''__proto__'') (Object_entries config))"
    using keys by (rule notifiers_again)
  also have "\<dots> = map (\<lambda>(key, v). (key, notifiers_value key v))
        (filter (\<lambda>kv. fst kv \<noteq> ''__proto__'') (Object_entries config))"
    by (simp only: notifiers_value_idem)
  also have "\<dots> = maskSensitiveConfig_notifiers config"
    using keys by (rule notifiers_entries [symmetric])
  finally show ?thesis .
qed

lemma sensitive_not_proto:
  "isSensitive_storages key \<Longrightarrow> key \<noteq> ''__proto__''"
  "isSensitive_notifiers key \<Longrightarrow> key \<noteq> ''__proto__''"
  using proto_not_sensitive by auto

lemma storages_masks:
  assumes keys: "own_keys (map fst m)" and mem: "(key, JStr s) \<in> set m"
    and sens: "isSensitive_storages key"
  shows "map_of (maskSensitiveConfig_storages (JObj m)) key = Some (JStr ''***'')"
proof -
  have keys': "own_keys (map fst (Object_entries (JObj m)))"
    using keys by simp
  from sens have "key \<noteq> ''__proto__''"
    by (rule sensitive_not_proto)
  with mem have "(key, JStr s) \<in> set (filter (\<lambda>kv. fst kv \<noteq> ''__proto__'') m)"
    by simp
  then have "(key, storages_value key (JStr s)) \<in>
      (\<lambda>(key, v). (key, storages_value key v)) ` set (filter (\<lambda>kv. fst kv \<noteq> ''__proto__'') m)"
    by (rule rev_image_eqI) simp
  then have "(key, JStr ''***'') \<in> set (maskSensitiveConfig_storages (JObj m))"
    using sens by (simp add: storages_entries [OF keys'] storages_value_def)
  moreover have "distinct (map fst (maskSensitiveConfig_storages (JObj m)))"
    using keys by (simp add: map_fst_storages [OF keys'] own_keys_def)
  ultimately show ?thesis
    by (simp add: map_of_eq_Some_iff)
qed

lemma notifiers_masks:
  assumes keys: "own_keys (map fst m)" and mem: "(key, JStr s) \<in> set m"
    and sens: "isSensitive_notifiers key"
  shows "map_of (maskSensitiveConfig_notifiers (JObj m)) key = Some (JStr ''***REDACTED***'')"
proof -
  have keys': "own_keys (map fst (Object_entries (JObj m)))"
    using keys by simp
  from sens have "key \<noteq> ''__proto__''"
    by (rule sensitive_not_proto)
  with mem have "(key, JStr s) \<in> set (filter (\<lambda>kv. fst kv \<noteq> ''__proto__'') m)"
    by simp
  then have "(key, notifiers_value key (JStr s)) \<in>
      (\<lambda>(key, v). (key, notifiers_value key v)) ` set (filter (\<lambda>kv. fst kv \<noteq> ''__proto__'') m)"
    by (rule rev_image_eqI) simp
  then have "(key, JStr ''***REDACTED***'') \<in> set (maskSensitiveConfig_notifiers (JObj m))"
    using sens by (simp add: notifiers_entries [OF keys'] notifiers_value_def)
  moreover have "distinct (map fst (maskSensitiveConfig_notifiers (JObj m)))"
    using keys by (simp add: map_fst_notifiers [OF keys'] own_keys_def)
  ultimately show ?thesis
    by (simp add: map_of_eq_Some_iff)
qed

text \<open>
  The entries one at a time. The storage redactor masks a string under a sensitive key at
  any depth, as long as no key on the way to it is \<^verbatim>\<open>__proto__\<close>; both redactors keep
  the keys of an object that has no key \<^verbatim>\<open>__proto__\<close>, and the value of an entry that
  is neither masked nor processed further.
\<close>

lemma map_of_entries:
  "key \<noteq> ''__proto__'' \<Longrightarrow>
   map_of (map (\<lambda>(key, v). (key, g key v)) (filter (\<lambda>kv. fst kv \<noteq> ''__proto__'') es)) key =
     map_option (g key) (map_of es key)"
  by (induction es) auto

lemma map_of_storages:
  "own_keys (map fst (Object_entries config)) \<Longrightarrow> key \<noteq> ''__proto__'' \<Longrightarrow>
   map_of (maskSensitiveConfig_storages config) key =
     map_option (storages_value key) (map_of (Object_entries config) key)"
  by (simp add: storages_entries map_of_entries)

lemma get_path_object: "get_path v (keys @ [key]) = Some w \<Longrightarrow> is_object v"
  by (cases v; cases keys) simp_all

lemma storages_masks_nested:
  assumes "wf_json config" and "get_path config (keys @ [key]) = Some (JStr s)"
    and "isSensitive_storages key" and "''__proto__'' \<notin> set keys"
  shows "get_path (JObj (maskSensitiveConfig_storages config)) (keys @ [key]) = Some (JStr ''***'')"
  using assms
proof (induction keys arbitrary: config)
  case Nil
  then have "map_of (Object_entries config) key = Some (JStr s)"
    by (simp split: option.splits)
  moreover have "own_keys (map fst (Object_entries config))"
    using Nil.prems(1) by (rule own_keys_Object_entries)
  moreover have "key \<noteq> ''__proto__''"
    using Nil.prems(3) by (rule sensitive_not_proto)
  ultimately have "map_of (maskSensitiveConfig_storages config) key = Some (JStr ''***'')"
    using Nil.prems(3) by (simp add: map_of_storages storages_value_def)
  then show ?case
    by simp
next
  case (Cons k ks)
  from Cons.prems(2) obtain v where v: "map_of (Object_entries config) k = Some v"
    and path: "get_path v (ks @ [key]) = Some (JStr s)"
    by (auto split: option.splits)
  from path have obj: "is_object v"
    by (rule get_path_object)
  then have "\<not> is_string v"
    by (cases v) simp_all
  with obj have stored: "storages_value k v = JObj (maskSensitiveConfig_storages v)"
    by (simp add: storages_value_def)
  have "(k, v) \<in> set (Object_entries config)"
    using v by (rule map_of_SomeD)
  with Cons.prems(1) have "wf_json v"
    by (rule wf_json_Object_entries)
  with path Cons.prems(3,4)
  have IH: "get_path (JObj (maskSensitiveConfig_storages v)) (ks @ [key]) = Some (JStr ''***'')"
    by (intro Cons.IH) simp_all
  have "own_keys (map fst (Object_entries config))"
    using Cons.prems(1) by (rule own_keys_Object_entries)
  moreover have "k \<noteq> ''__proto__''"
    using Cons.prems(4) by auto
  ultimately have "map_of (maskSensitiveConfig_storages config) k =
      Some (JObj (maskSensitiveConfig_storages v))"
    using v stored by (simp add: map_of_storages)
  with IH show ?case
    by simp
qed

lemma map_of_notifiers:
  "own_keys (map fst (Object_entries config)) \<Longrightarrow> key \<noteq> ''__proto__'' \<Longrightarrow>
   map_of (maskSensitiveConfig_notifiers config) key =
     map_option (notifiers_value key) (map_of (Object_entries config) key)"
  by (simp add: notifiers_entries map_of_entries)

lemma redactors_keep_keys:
  assumes "own_keys (map fst m)" and "''__proto__'' \<notin> set (map fst m)"
  shows "map fst (maskSensitiveConfig_storages (JObj m)) = map fst m"
    and "map fst (maskSensitiveConfig_notifiers (JObj m)) = map fst m"
proof -
  have "\<forall>key\<in>set (map fst m). key \<noteq> ''__proto__''"
    using assms(2) by blast
  then have "filter (\<lambda>key. key \<noteq> ''__proto__'') (map fst m) = map fst m"
    by (rule filter_True)
  with assms(1) show "map fst (maskSensitiveConfig_storages (JObj m)) = map fst m"
    and "map fst (maskSensitiveConfig_notifiers (JObj m)) = map fst m"
    by (simp_all add: map_fst_storages map_fst_notifiers)
qed

lemma redactors_keep_values:
  assumes "own_keys (map fst m)" and "map_of m key = Some v" and "key \<noteq> ''__proto__''"
  shows "\<not> (isSensitive_storages key \<and> is_string v) \<Longrightarrow> \<not> is_object v \<Longrightarrow>
      map_of (maskSensitiveConfig_storages (JObj m)) key = Some v"
    and "\<not> (isSensitive_notifiers key \<and> is_string v) \<Longrightarrow>
      map_of (maskSensitiveConfig_notifiers (JObj m)) key = Some v"
  using assms by (auto simp: map_of_storages map_of_notifiers storages_value_def notifiers_value_def)

lemma storages_sensitivity:
  "isSensitive_storages ''password''" "\<not> isSensitive_storages ''host''"
  "\<not> isSensitive_storages ''url''" "isSensitive_storages ''secret''"
  "isSensitive_storages ''apiKey''" "\<not> isSensitive_storages ''regular''"
  by (simp_all add: isSensitive_storages_def SENSITIVE_KEYS_def lower_defs)

lemma notifiers_sensitivity:
  "\<not> isSensitive_notifiers ''my_access_key''" "\<not> isSensitive_notifiers ''apiKey''"
  "\<not> isSensitive_notifiers ''host''"
  by (simp_all add: isSensitive_notifiers_def sensitiveKeys_def lower_defs)

section \<open>The branches of a request\<close>

lemma request_Rejects:
  "fetched env this m path b = Rejects r \<Longrightarrow>
   request env this m path b =
     (Throws (NetworkError (''Network error: '' @
        (case r of ErrorValue message \<Rightarrow> message | OtherValue \<Rightarrow> ''Unknown error''))), this)"
  by (simp add: request_def)

lemma request_TextRejects:
  "fetched env this m path b = Resolves response \<Longrightarrow> response_text response = TextRejects r \<Longrightarrow>
   request env this m path b = (Throws (Propagated r), this)"
  by (simp add: request_def)

lemma request_unparsed:
  "fetched env this m path b = Resolves response \<Longrightarrow> response_text response = Text t \<Longrightarrow>
   t \<noteq> [] \<Longrightarrow> JSON_parse env t = None \<Longrightarrow>
   request env this m path b =
     (Throws (ResponseFormatError (''Invalid JSON response: '' @ substring t 0 100)), this)"
  by (simp add: request_def)

lemma request_parsed:
  "fetched env this m path b = Resolves response \<Longrightarrow> response_text response = Text t \<Longrightarrow>
   t \<noteq> [] \<Longrightarrow> JSON_parse env t = Some parsed \<Longrightarrow>
   request env this m path b =
     (if ok response then (Returns (Some parsed), this)
      else (Throws (ApiError (extractErrorMessage (Some parsed) (status response))), this))"
  by (simp add: request_def)

lemma request_empty:
  fixes env :: "'n platform"
  shows "fetched env this m path b = Resolves response \<Longrightarrow> response_text response = Text [] \<Longrightarrow>
   request env this m path b =
     (if ok response then (Returns None, this)
      else (Throws (ApiError (extractErrorMessage (None :: 'n json option) (status response))), this))"
  by (simp add: request_def)

lemma snd_request: "snd (request env this m path b) = this"
proof (cases "fetched env this m path b")
  case (Rejects r)
  then show ?thesis
    by (simp add: request_Rejects)
next
  case (Resolves response)
  show ?thesis
  proof (cases "response_text response")
    case (TextRejects r)
    with Resolves show ?thesis
      by (simp add: request_TextRejects)
  next
    case (Text t)
    show ?thesis
    proof (cases "t = []")
      case True
      with Resolves Text show ?thesis
        by (simp add: request_empty)
    next
      case False
      with Resolves Text show ?thesis
        by (cases "JSON_parse env t") (simp_all add: request_unparsed request_parsed)
    qed
  qed
qed

lemma extractErrorMessage_error:
  "map_of kvs ''error'' = Some (JStr s) \<Longrightarrow> extractErrorMessage (Some (JObj kvs)) st = s"
  by (simp add: extractErrorMessage_def)

lemma extractErrorMessage_message:
  "\<nexists>s. map_of kvs ''error'' = Some (JStr s) \<Longrightarrow> map_of kvs ''message'' = Some (JStr s) \<Longrightarrow>
   extractErrorMessage (Some (JObj kvs)) st = s"
  by (simp add: extractErrorMessage_def split: option.splits json.splits)

lemma extractErrorMessage_default:
  assumes "\<nexists>kvs s. data = Some (JObj kvs) \<and> map_of kvs ''error'' = Some (JStr s)"
    and "\<nexists>kvs s. data = Some (JObj kvs) \<and> map_of kvs ''message'' = Some (JStr s)"
  shows "extractErrorMessage data st = ''HTTP error '' @ nat_to_string st"
proof (cases data)
  case None
  then show ?thesis
    by (simp add: extractErrorMessage_def)
next
  case (Some d)
  with assms show ?thesis
    by (cases d) (simp_all add: extractErrorMessage_def split: option.splits json.splits)
qed

section \<open>The claims about the redactors\<close>

text \<open>
  C1: the notifier redactor has no branch for a nested mapping. On the configuration
  \<^verbatim>\<open>{smtp: {host: "mail.example.com", password: "hunter2"}}\<close> it returns the input as
  it is, the nested password in clear, where the storage redactor processes the nested
  mapping with the same rule and masks the password (as it does at every depth,
  \<open>storages_masks_nested\<close>).
\<close>

theorem notifiers_nested_unmasked:
  "maskSensitiveConfig_notifiers
      (JObj [(''smtp'', JObj [(''host'', JStr ''mail.example.com''), (''password'', JStr ''hunter2'')])])
     = [(''smtp'', JObj [(''host'', JStr ''mail.example.com''),
                         (''password'', JStr ''hunter2'' :: int json)])] \<and>
   maskSensitiveConfig_storages
      (JObj [(''smtp'', JObj [(''host'', JStr ''mail.example.com''), (''password'', JStr ''hunter2'')])])
     = [(''smtp'', JObj [(''host'', JStr ''mail.example.com''),
                         (''password'', JStr ''***'' :: int json)])]"
  by (simp add: notifiers_entries storages_entries key_defs notifiers_value_def storages_value_def
      storages_sensitivity)

text \<open>
  C2, with each redactor's own keyword list: in an object, a string under a key whose
  lower-cased form contains \<open>password\<close>, \<open>secret\<close>, \<open>key\<close>, \<open>token\<close> or
  \<open>credential\<close> is \<open>***\<close> in the result of the storage redactor, and a string under a
  key whose lower-cased form contains \<open>url\<close>, \<open>token\<close>, \<open>api_key\<close>, \<open>password\<close> or
  \<open>secret\<close> is \<open>***REDACTED***\<close> in the result of the notifier redactor.
\<close>

theorem sensitive_string_masked:
  assumes "own_keys (map fst m)" and "(key, JStr s) \<in> set m"
  shows "(kw \<in> set [''password'', ''secret'', ''key'', ''token'', ''credential''] \<and>
          str_includes (toLowerCase key) kw \<longrightarrow>
            map_of (maskSensitiveConfig_storages (JObj m)) key = Some (JStr ''***'')) \<and>
         (kw \<in> set [''url'', ''token'', ''api_key'', ''password'', ''secret''] \<and>
          str_includes (toLowerCase key) kw \<longrightarrow>
            map_of (maskSensitiveConfig_notifiers (JObj m)) key = Some (JStr ''***REDACTED***''))"
proof (intro conjI impI)
  assume "kw \<in> set [''password'', ''secret'', ''key'', ''token'', ''credential''] \<and>
      str_includes (toLowerCase key) kw"
  then have "isSensitive_storages key"
    by (auto simp: isSensitive_storages_def SENSITIVE_KEYS_def)
  with assms show "map_of (maskSensitiveConfig_storages (JObj m)) key = Some (JStr ''***'')"
    by (rule storages_masks)
next
  assume "kw \<in> set [''url'', ''token'', ''api_key'', ''password'', ''secret''] \<and>
      str_includes (toLowerCase key) kw"
  then have "isSensitive_notifiers key"
    by (auto simp: isSensitive_notifiers_def sensitiveKeys_def)
  with assms show "map_of (maskSensitiveConfig_notifiers (JObj m)) key = Some (JStr ''***REDACTED***'')"
    by (rule notifiers_masks)
qed

text \<open>
  The key \<open>secretToken\<close> is masked by both redactors and \<open>my_access_key\<close> by the storage
  redactor.
\<close>

theorem sensitive_string_masked_witness:
  "map_of (maskSensitiveConfig_storages
      (JObj [(''secretToken'', JStr ''a''), (''my_access_key'', JStr ''b'')])) ''secretToken''
     = Some (JStr ''***'' :: int json) \<and>
   map_of (maskSensitiveConfig_notifiers
      (JObj [(''secretToken'', JStr ''a''), (''my_access_key'', JStr ''b'')])) ''secretToken''
     = Some (JStr ''***REDACTED***'' :: int json) \<and>
   map_of (maskSensitiveConfig_storages
      (JObj [(''secretToken'', JStr ''a''), (''my_access_key'', JStr ''b'')])) ''my_access_key''
     = Some (JStr ''***'' :: int json)"
  using sensitive_string_masked
    [where m = "[(''secretToken'', JStr ''a''), (''my_access_key'', JStr ''b'' :: int json)]"
       and key = "''secretToken''" and s = "''a''" and kw = "''token''"]
    sensitive_string_masked
    [where m = "[(''secretToken'', JStr ''a''), (''my_access_key'', JStr ''b'' :: int json)]"
       and key = "''my_access_key''" and s = "''b''" and kw = "''key''"]
  by (simp add: key_defs lower_defs)

text \<open>
  The two lists differ: the notifier redactor leaves a string under \<open>my_access_key\<close> as it
  is, and the storage redactor a string under \<open>url\<close>.
\<close>

theorem both_lists_counterexample:
  "map_of (maskSensitiveConfig_notifiers (JObj [(''my_access_key'', JStr ''should-be-masked'')]))
      ''my_access_key'' = Some (JStr ''should-be-masked'' :: int json) \<and>
   map_of (maskSensitiveConfig_storages (JObj [(''url'', JStr ''https://hooks.example/T0'')]))
      ''url'' = Some (JStr ''https://hooks.example/T0'' :: int json)"
  by (simp add: notifiers_entries storages_entries key_defs notifiers_value_def storages_value_def
      notifiers_sensitivity storages_sensitivity)

text \<open>
  C9: both redactors are functions of their argument alone, and on every object that
  \<^verbatim>\<open>JSON.parse\<close> can build, applying a redactor to its own result gives that result
  again.
\<close>

theorem redactors_idempotent:
  "wf_json (JObj m) \<Longrightarrow>
   maskSensitiveConfig_storages (JObj (maskSensitiveConfig_storages (JObj m))) =
     maskSensitiveConfig_storages (JObj m) \<and>
   maskSensitiveConfig_notifiers (JObj (maskSensitiveConfig_notifiers (JObj m))) =
     maskSensitiveConfig_notifiers (JObj m)"
  by (simp add: storages_idem notifiers_idem)

theorem redactors_idempotent_witness:
  "maskSensitiveConfig_storages (JObj (maskSensitiveConfig_storages (JObj
      [(''connection'', JObj [(''host'', JStr ''s3.amazonaws.com''), (''secret'', JStr ''x''),
          (''nested'', JObj [(''apiKey'', JStr ''y'')])]),
       (''regular'', JStr ''visible'')])))
   = maskSensitiveConfig_storages (JObj
      [(''connection'', JObj [(''host'', JStr ''s3.amazonaws.com''), (''secret'', JStr ''x''),
          (''nested'', JObj [(''apiKey'', JStr ''y'' :: int json)])]),
       (''regular'', JStr ''visible'')]) \<and>
   maskSensitiveConfig_notifiers (JObj (maskSensitiveConfig_notifiers (JObj
      [(''connection'', JObj [(''host'', JStr ''s3.amazonaws.com''), (''secret'', JStr ''x''),
          (''nested'', JObj [(''apiKey'', JStr ''y'')])]),
       (''regular'', JStr ''visible'')])))
   = maskSensitiveConfig_notifiers (JObj
      [(''connection'', JObj [(''host'', JStr ''s3.amazonaws.com''), (''secret'', JStr ''x''),
          (''nested'', JObj [(''apiKey'', JStr ''y'' :: int json)])]),
       (''regular'', JStr ''visible'')])"
  using redactors_idempotent
    [of "[(''connection'', JObj [(''host'', JStr ''s3.amazonaws.com''), (''secret'', JStr ''x''),
          (''nested'', JObj [(''apiKey'', JStr ''y'' :: int json)])]),
       (''regular'', JStr ''visible'')]"]
  by (simp add: key_defs)

text \<open>
  C10: an entry whose key is \<^verbatim>\<open>__proto__\<close> is missing from the result of both
  redactors, so the key list of the result is not that of the input: of
  \<^verbatim>\<open>{"__proto__": "x", "host": "h"}\<close> only \<open>host\<close> is left.
\<close>

theorem proto_key_dropped:
  "maskSensitiveConfig_storages (JObj [(''__proto__'', JStr ''x''), (''host'', JStr ''h'')])
     = [(''host'', JStr ''h'' :: int json)] \<and>
   maskSensitiveConfig_notifiers (JObj [(''__proto__'', JStr ''x''), (''host'', JStr ''h'')])
     = [(''host'', JStr ''h'' :: int json)]"
  by (simp add: notifiers_entries storages_entries key_defs notifiers_value_def storages_value_def
      storages_sensitivity notifiers_sensitivity)

section \<open>The claims about the client\<close>

text \<open>
  C3, with the conditions the code tests: when the bearer token is a non-empty string, the
  headers have \<open>Authorization: Bearer <token>\<close> and no \<open>X-API-Key\<close>, whatever the
  API key is; when the bearer token is absent or empty and the API key is a non-empty
  string, they have \<open>X-API-Key: <key>\<close> and no \<open>Authorization\<close>; when both are
  absent or empty, they have neither; \<open>Content-Type: application/json\<close> is there in
  every case.
\<close>

theorem getHeaders_cases:
  "(\<forall>t. this_bearerToken this = Some t \<and> t \<noteq> [] \<longrightarrow>
      map_of (getHeaders this) ''Authorization'' = Some (''Bearer '' @ t) \<and>
      map_of (getHeaders this) ''X-API-Key'' = None) \<and>
   (\<forall>k. \<not> truthy (this_bearerToken this) \<and> this_apiKey this = Some k \<and> k \<noteq> [] \<longrightarrow>
      map_of (getHeaders this) ''X-API-Key'' = Some k \<and>
      map_of (getHeaders this) ''Authorization'' = None) \<and>
   (\<not> truthy (this_bearerToken this) \<and> \<not> truthy (this_apiKey this) \<longrightarrow>
      map_of (getHeaders this) ''X-API-Key'' = None \<and>
      map_of (getHeaders this) ''Authorization'' = None) \<and>
   map_of (getHeaders this) ''Content-Type'' = Some ''application/json''"
  by (simp add: getHeaders_def Let_def js_set_def array_index_def digit_value_def)

theorem getHeaders_cases_witness:
  "map_of (getHeaders (constructor
      \<lparr>baseUrl = ''http://h/'', apiKey = Some ''test-api-key'', bearerToken = Some ''test-bearer-token''\<rparr>))
      ''Authorization'' = Some ''Bearer test-bearer-token'' \<and>
   map_of (getHeaders (constructor
      \<lparr>baseUrl = ''http://h/'', apiKey = Some ''test-api-key'', bearerToken = Some ''test-bearer-token''\<rparr>))
      ''X-API-Key'' = None \<and>
   map_of (getHeaders (constructor
      \<lparr>baseUrl = ''http://h/'', apiKey = Some ''test-api-key'', bearerToken = None\<rparr>))
      ''X-API-Key'' = Some ''test-api-key'' \<and>
   map_of (getHeaders (constructor
      \<lparr>baseUrl = ''http://h/'', apiKey = Some ''test-api-key'', bearerToken = None\<rparr>))
      ''Authorization'' = None"
  using getHeaders_cases
    [of "constructor \<lparr>baseUrl = ''http://h/'', apiKey = Some ''test-api-key'',
          bearerToken = Some ''test-bearer-token''\<rparr>"]
    getHeaders_cases
    [of "constructor \<lparr>baseUrl = ''http://h/'', apiKey = Some ''test-api-key'', bearerToken = None\<rparr>"]
  by (simp add: constructor_def)

text \<open>
  A bearer token that is configured as the empty string does not count: with an API key
  beside it, the headers carry the API key and no \<open>Authorization\<close>.
\<close>

theorem getHeaders_empty_bearer_counterexample:
  "map_of (getHeaders (constructor
      \<lparr>baseUrl = ''http://h/'', apiKey = Some ''k'', bearerToken = Some []\<rparr>))
      ''Authorization'' = None \<and>
   map_of (getHeaders (constructor
      \<lparr>baseUrl = ''http://h/'', apiKey = Some ''k'', bearerToken = Some []\<rparr>))
      ''X-API-Key'' = Some ''k''"
  by (simp add: constructor_def getHeaders_def js_set_def array_index_def digit_value_def)

text \<open>
  C4: when the body text is non-empty and \<^verbatim>\<open>JSON.parse\<close> throws on it, \<^verbatim>\<open>request\<close>
  throws an error whose message is \<open>Invalid JSON response: \<close> followed by the first 100
  code units of the text: the whole text when it has at most 100, and exactly 100 code
  units of it otherwise.
\<close>

theorem request_invalid_json:
  assumes "fetched env this m path b = Resolves response"
    and "response_text response = Text t" and "t \<noteq> []" and "JSON_parse env t = None"
  shows "fst (request env this m path b) =
           Throws (ResponseFormatError (''Invalid JSON response: '' @ take 100 t)) \<and>
         (length t \<le> 100 \<longrightarrow> take 100 t = t) \<and>
         (100 < length t \<longrightarrow> length (take 100 t) = 100)"
  using assms by (simp add: request_unparsed substring_def)

theorem request_invalid_json_witness:
  "fst (request
      \<lparr>fetch = \<lambda>url options. Resolves \<lparr>status = 200, response_text = Text ''not valid json''\<rparr>,
       JSON_parse = \<lambda>s. None, JSON_stringify = \<lambda>v. ''{}''\<rparr>
      (constructor \<lparr>baseUrl = ''http://h/'', apiKey = Some ''k'', bearerToken = None\<rparr>)
      ''GET'' ''/api/databases'' None)
     = (Throws (ResponseFormatError ''Invalid JSON response: not valid json'') :: int outcome)"
  using request_invalid_json
    [where env = "\<lparr>fetch = \<lambda>url options. Resolves \<lparr>status = 200, response_text = Text ''not valid json''\<rparr>,
       JSON_parse = \<lambda>s. None, JSON_stringify = \<lambda>v. ''{}''\<rparr> :: int platform"
      and this = "constructor \<lparr>baseUrl = ''http://h/'', apiKey = Some ''k'', bearerToken = None\<rparr>"
      and m = "''GET''" and path = "''/api/databases''" and b = None
      and response = "\<lparr>status = 200, response_text = Text ''not valid json''\<rparr>"
      and t = "''not valid json''"]
  by simp

text \<open>
  C5: when the status is outside 200 to 299 and the body was empty or parsed, \<^verbatim>\<open>request\<close>
  throws an error whose message is the \<open>error\<close> field of the body when the body is an
  object and that field a string, else its \<open>message\<close> field when that is a string, else
  \<open>HTTP error \<close> followed by the status.
\<close>

theorem request_http_error:
  assumes "fetched env this m path b = Resolves response"
    and "response_text response = Text t"
    and "status response < 200 \<or> 299 < status response"
    and "(t = [] \<and> data = None) \<or> (t \<noteq> [] \<and> data \<noteq> None \<and> JSON_parse env t = data)"
  shows "(\<forall>kvs s. data = Some (JObj kvs) \<and> map_of kvs ''error'' = Some (JStr s) \<longrightarrow>
            fst (request env this m path b) = Throws (ApiError s)) \<and>
         (\<forall>kvs s. data = Some (JObj kvs) \<and> (\<nexists>e. map_of kvs ''error'' = Some (JStr e)) \<and>
                  map_of kvs ''message'' = Some (JStr s) \<longrightarrow>
            fst (request env this m path b) = Throws (ApiError s)) \<and>
         ((\<nexists>kvs s. data = Some (JObj kvs) \<and> map_of kvs ''error'' = Some (JStr s)) \<and>
          (\<nexists>kvs s. data = Some (JObj kvs) \<and> map_of kvs ''message'' = Some (JStr s)) \<longrightarrow>
            fst (request env this m path b) =
              Throws (ApiError (''HTTP error '' @ nat_to_string (status response))))"
proof -
  from assms(3) have "\<not> ok response"
    by (auto simp: ok_def)
  with assms(1,2,4)
  have thrown: "fst (request env this m path b) =
      Throws (ApiError (extractErrorMessage data (status response)))"
    by (auto simp: request_empty request_parsed)
  show ?thesis
    unfolding thrown
    by (auto simp: extractErrorMessage_error extractErrorMessage_message
        extractErrorMessage_default)
qed

text \<open>
  The bodies \<^verbatim>\<open>{"error": "Database not found"}\<close>, \<^verbatim>\<open>{"message": "Access denied"}\<close>
  and \<^verbatim>\<open>{}\<close> with status 500.
\<close>

theorem request_http_error_witness:
  \<open>fst (request
      \<lparr>fetch = \<lambda>url options.
         Resolves \<lparr>status = 404, response_text = Text ''{"error": "Database not found"}''\<rparr>,
       JSON_parse = \<lambda>s. Some (JObj [(''error'', JStr ''Database not found'')]),
       JSON_stringify = \<lambda>v. ''{}''\<rparr>
      (constructor \<lparr>baseUrl = ''http://h/'', apiKey = Some ''k'', bearerToken = None\<rparr>)
      ''GET'' ''/api/databases/7'' None)
     = (Throws (ApiError ''Database not found'') :: int outcome) \<and>
   fst (request
      \<lparr>fetch = \<lambda>url options.
         Resolves \<lparr>status = 403, response_text = Text ''{"message": "Access denied"}''\<rparr>,
       JSON_parse = \<lambda>s. Some (JObj [(''message'', JStr ''Access denied'')]),
       JSON_stringify = \<lambda>v. ''{}''\<rparr>
      (constructor \<lparr>baseUrl = ''http://h/'', apiKey = Some ''k'', bearerToken = None\<rparr>)
      ''GET'' ''/api/databases/7'' None)
     = (Throws (ApiError ''Access denied'') :: int outcome) \<and>
   fst (request
      \<lparr>fetch = \<lambda>url options. Resolves \<lparr>status = 500, response_text = Text ''{}''\<rparr>,
       JSON_parse = \<lambda>s. Some (JObj []),
       JSON_stringify = \<lambda>v. ''{}''\<rparr>
      (constructor \<lparr>baseUrl = ''http://h/'', apiKey = Some ''k'', bearerToken = None\<rparr>)
      ''GET'' ''/api/databases/7'' None)
     = (Throws (ApiError ''HTTP error 500'') :: int outcome)\<close>
  using request_http_error
    [where env = \<open>\<lparr>fetch = \<lambda>url options.
         Resolves \<lparr>status = 404, response_text = Text ''{"error": "Database not found"}''\<rparr>,
       JSON_parse = \<lambda>s. Some (JObj [(''error'', JStr ''Database not found'')]),
       JSON_stringify = \<lambda>v. ''{}''\<rparr> :: int platform\<close>
      and this = "constructor \<lparr>baseUrl = ''http://h/'', apiKey = Some ''k'', bearerToken = None\<rparr>"
      and m = "''GET''" and path = "''/api/databases/7''" and b = None
      and response = \<open>\<lparr>status = 404, response_text = Text ''{"error": "Database not found"}''\<rparr>\<close>
      and t = \<open>''{"error": "Database not found"}''\<close>
      and data = "Some (JObj [(''error'', JStr ''Database not found'')])"]
    request_http_error
    [where env = \<open>\<lparr>fetch = \<lambda>url options.
         Resolves \<lparr>status = 403, response_text = Text ''{"message": "Access denied"}''\<rparr>,
       JSON_parse = \<lambda>s. Some (JObj [(''message'', JStr ''Access denied'')]),
       JSON_stringify = \<lambda>v. ''{}''\<rparr> :: int platform\<close>
      and this = "constructor \<lparr>baseUrl = ''http://h/'', apiKey = Some ''k'', bearerToken = None\<rparr>"
      and m = "''GET''" and path = "''/api/databases/7''" and b = None
      and response = \<open>\<lparr>status = 403, response_text = Text ''{"message": "Access denied"}''\<rparr>\<close>
      and t = \<open>''{"message": "Access denied"}''\<close>
      and data = "Some (JObj [(''message'', JStr ''Access denied'')])"]
    request_http_error
    [where env = \<open>\<lparr>fetch = \<lambda>url options. Resolves \<lparr>status = 500, response_text = Text ''{}''\<rparr>,
       JSON_parse = \<lambda>s. Some (JObj []),
       JSON_stringify = \<lambda>v. ''{}''\<rparr> :: int platform\<close>
      and this = "constructor \<lparr>baseUrl = ''http://h/'', apiKey = Some ''k'', bearerToken = None\<rparr>"
      and m = "''GET''" and path = "''/api/databases/7''" and b = None
      and response = \<open>\<lparr>status = 500, response_text = Text ''{}''\<rparr>\<close>
      and t = \<open>''{}''\<close>
      and data = "Some (JObj [])"]
  by (simp add: nat_to_string.simps digit_char_def)

text \<open>
  C6: when the \<^verbatim>\<open>fetch\<close> promise rejects, \<^verbatim>\<open>request\<close> throws an error whose message
  is \<open>Network error: \<close> followed by the message of the rejection when that is an
  \<^verbatim>\<open>Error\<close>, and \<open>Network error: Unknown error\<close> when it is any other value.
\<close>

theorem request_network_error:
  "fetched env this m path b = Rejects r \<Longrightarrow>
   (\<forall>msg. r = ErrorValue msg \<longrightarrow>
      fst (request env this m path b) = Throws (NetworkError (''Network error: '' @ msg))) \<and>
   (r = OtherValue \<longrightarrow>
      fst (request env this m path b) = Throws (NetworkError ''Network error: Unknown error''))"
  by (simp add: request_Rejects)

theorem request_network_error_witness:
  "fst (request \<lparr>fetch = \<lambda>url options. Rejects (ErrorValue ''boom''), JSON_parse = \<lambda>s. None,
                 JSON_stringify = \<lambda>v. ''{}''\<rparr>
          (constructor \<lparr>baseUrl = ''http://h/'', apiKey = Some ''k'', bearerToken = None\<rparr>)
          ''GET'' ''/api/databases'' None)
     = (Throws (NetworkError ''Network error: boom'') :: int outcome)"
  using request_network_error
    [where env = "\<lparr>fetch = \<lambda>url options. Rejects (ErrorValue ''boom''), JSON_parse = \<lambda>s. None,
          JSON_stringify = \<lambda>v. ''{}''\<rparr> :: int platform"
      and this = "constructor \<lparr>baseUrl = ''http://h/'', apiKey = Some ''k'', bearerToken = None\<rparr>"
      and m = "''GET''" and path = "''/api/databases''" and b = None and r = "ErrorValue ''boom''"]
  by simp

text \<open>
  C7: the body is parsed before the status is looked at. A non-empty body text on which
  \<^verbatim>\<open>JSON.parse\<close> throws gives the invalid-JSON error whatever the status is, and the
  error of the status check is thrown only when the status is outside 200 to 299 and the
  body text was empty or parsed.
\<close>

theorem request_parse_before_status:
  assumes "fetched env this m path b = Resolves response"
    and "response_text response = Text t"
  shows "(t \<noteq> [] \<and> JSON_parse env t = None \<longrightarrow>
           fst (request env this m path b) =
             Throws (ResponseFormatError (''Invalid JSON response: '' @ take 100 t))) \<and>
         (\<forall>msg. fst (request env this m path b) = Throws (ApiError msg) \<longrightarrow>
            (status response < 200 \<or> 299 < status response) \<and>
            (t = [] \<or> (\<exists>parsed. JSON_parse env t = Some parsed)))"
proof (cases "t = []")
  case True
  with assms show ?thesis
    by (auto simp: request_empty ok_def)
next
  case False
  with assms show ?thesis
    by (cases "JSON_parse env t") (auto simp: request_unparsed request_parsed ok_def substring_def)
qed

theorem request_parse_before_status_witness:
  "fst (request
      \<lparr>fetch = \<lambda>url options. Resolves \<lparr>status = 502, response_text = Text ''<html>Bad Gateway</html>''\<rparr>,
       JSON_parse = \<lambda>s. None, JSON_stringify = \<lambda>v. ''{}''\<rparr>
      (constructor \<lparr>baseUrl = ''http://h/'', apiKey = Some ''k'', bearerToken = None\<rparr>)
      ''GET'' ''/api/databases'' None)
     = (Throws (ResponseFormatError ''Invalid JSON response: <html>Bad Gateway</html>'') :: int outcome)"
  using request_parse_before_status
    [where env = "\<lparr>fetch = \<lambda>url options. Resolves \<lparr>status = 502, response_text = Text ''<html>Bad Gateway</html>''\<rparr>,
       JSON_parse = \<lambda>s. None, JSON_stringify = \<lambda>v. ''{}''\<rparr> :: int platform"
      and this = "constructor \<lparr>baseUrl = ''http://h/'', apiKey = Some ''k'', bearerToken = None\<rparr>"
      and m = "''GET''" and path = "''/api/databases''" and b = None
      and response = "\<lparr>status = 502, response_text = Text ''<html>Bad Gateway</html>''\<rparr>"
      and t = "''<html>Bad Gateway</html>''"]
  by (simp add: substring_def)

text \<open>
  C8: the constructor removes one trailing slash from the base URL, so that a URL ending in
  two slashes keeps one, leaves a URL without a trailing slash as it is, and stores the two
  credentials as given; a request leaves the client as the constructor built it.
\<close>

theorem constructor_baseUrl:
  "(\<forall>u. baseUrl config = u @ ''/'' \<longrightarrow> this_baseUrl (constructor config) = u) \<and>
   (baseUrl config = [] \<or> last (baseUrl config) \<noteq> CHR ''/'' \<longrightarrow>
      this_baseUrl (constructor config) = baseUrl config) \<and>
   this_apiKey (constructor config) = apiKey config \<and>
   this_bearerToken (constructor config) = bearerToken config \<and>
   snd (request env (constructor config) m path b) = constructor config"
  by (auto simp: constructor_def replace_trailing_slash_def snd_request)

theorem constructor_baseUrl_witness:
  "this_baseUrl (constructor \<lparr>baseUrl = ''https://h.example//'', apiKey = None, bearerToken = None\<rparr>)
     = ''https://h.example/'' \<and>
   this_baseUrl (constructor \<lparr>baseUrl = ''https://h.example/'', apiKey = None, bearerToken = None\<rparr>)
     = ''https://h.example'' \<and>
   this_baseUrl (constructor \<lparr>baseUrl = ''https://h.example'', apiKey = None, bearerToken = None\<rparr>)
     = ''https://h.example''"
  using constructor_baseUrl
    [where config = "\<lparr>baseUrl = ''https://h.example//'', apiKey = None, bearerToken = None\<rparr>"
       and env = "\<lparr>fetch = \<lambda>url options. Rejects OtherValue, JSON_parse = \<lambda>s. None,
          JSON_stringify = \<lambda>v. ''{}''\<rparr> :: int platform"
       and m = "''GET''" and path = "''/api/stats''" and b = None]
    constructor_baseUrl
    [where config = "\<lparr>baseUrl = ''https://h.example/'', apiKey = None, bearerToken = None\<rparr>"
       and env = "\<lparr>fetch = \<lambda>url options. Rejects OtherValue, JSON_parse = \<lambda>s. None,
          JSON_stringify = \<lambda>v. ''{}''\<rparr> :: int platform"
       and m = "''GET''" and path = "''/api/stats''" and b = None]
    constructor_baseUrl
    [where config = "\<lparr>baseUrl = ''https://h.example'', apiKey = None, bearerToken = None\<rparr>"
       and env = "\<lparr>fetch = \<lambda>url options. Rejects OtherValue, JSON_parse = \<lambda>s. None,
          JSON_stringify = \<lambda>v. ''{}''\<rparr> :: int platform"
       and m = "''GET''" and path = "''/api/stats''" and b = None]
  by simp

end
